theory Spec2Isabelle
  imports Complex_Main
begin

section \<open>Numbers\<close>

text \<open>
  The program computes with Python floats. Every arithmetic operation of the source is
  modelled as the exact operation on real numbers followed by a rounding function, which
  is a parameter \<open>rnd\<close> of every definition below. Two roundings are used:
  \<^item> \<open>exact\<close> rounds nothing (arithmetic on the reals);
  \<^item> \<open>binary64\<close> rounds to the nearest number with a 53-bit significand, ties to even,
    which is IEEE 754 double precision on its normal range (no overflow, no subnormal
    numbers, no NaN).
  Comparisons are exact in both. Integers in node tuples are read as the reals they denote.
\<close>

type_synonym rounding = "real \<Rightarrow> real"

definition exact :: rounding where
  "exact x = x"

definition round_half_even :: "real \<Rightarrow> int" where
  "round_half_even x =
     (let f = \<lfloor>x\<rfloor>; d = x - of_int f in
      if d < 1 / 2 then f else if 1 / 2 < d then f + 1
      else if even f then f else f + 1)"

definition binary64 :: rounding where
  "binary64 x =
     (if x = 0 then 0
      else (let ulp = 2 powr (of_int (\<lfloor>log 2 \<bar>x\<bar>\<rfloor> - 52))
            in of_int (round_half_even (x / ulp)) * ulp))"

definition fadd :: "rounding \<Rightarrow> real \<Rightarrow> real \<Rightarrow> real" where
  "fadd rnd a b = rnd (a + b)"

definition fsub :: "rounding \<Rightarrow> real \<Rightarrow> real \<Rightarrow> real" where
  "fsub rnd a b = rnd (a - b)"

definition fmul :: "rounding \<Rightarrow> real \<Rightarrow> real \<Rightarrow> real" where
  "fmul rnd a b = rnd (a * b)"

definition fdiv :: "rounding \<Rightarrow> real \<Rightarrow> real \<Rightarrow> real" where
  \<comment> \<open>only called with a non-zero divisor: the caller raises ZeroDivisionError first\<close>
  "fdiv rnd a b = rnd (a / b)"

definition fcos :: "rounding \<Rightarrow> real \<Rightarrow> real" where
  "fcos rnd a = rnd (cos a)"

definition fsin :: "rounding \<Rightarrow> real \<Rightarrow> real" where
  "fsin rnd a = rnd (sin a)"

definition PI :: "rounding \<Rightarrow> real" where
  "PI rnd = rnd pi"

datatype error =
    ValueError_expected_3_values "real list"
  | ValueError_no_nonzero_time
  | ZeroDivisionError

section \<open>EllipticTrajectory\<close>

record EllipticTrajectory =
  et_rotation :: real
  et_x_length :: real
  et_y_length :: real
  et_t :: real
  et_curr_pos :: "real \<times> real"
  et_last_pos :: "real \<times> real"

definition ET_get_next_position ::
  "rounding \<Rightarrow> real \<Rightarrow> EllipticTrajectory \<Rightarrow> (real \<times> real) \<times> EllipticTrajectory" where
  "ET_get_next_position rnd step s =
     (let t1 = fadd rnd (et_t s) step;
          x = fsub rnd
                (fmul rnd (fmul rnd (et_x_length s) (fcos rnd t1)) (fcos rnd (et_rotation s)))
                (fmul rnd (fmul rnd (et_y_length s) (fsin rnd t1)) (fsin rnd (et_rotation s)));
          y = fadd rnd
                (fmul rnd (fmul rnd (et_x_length s) (fcos rnd t1)) (fsin rnd (et_rotation s)))
                (fmul rnd (fmul rnd (et_y_length s) (fsin rnd t1)) (fcos rnd (et_rotation s)));
          t2 = (if t1 \<ge> fmul rnd 1000 (PI rnd) then fsub rnd t1 (fmul rnd 1000 (PI rnd))
                else if t1 \<le> fmul rnd (- 1000) (PI rnd) then fadd rnd t1 (fmul rnd 1000 (PI rnd))
                else t1)
      in ((x, y), s\<lparr>et_t := t2, et_last_pos := et_curr_pos s, et_curr_pos := (x, y)\<rparr>))"

definition ET_get_delta ::
  "rounding \<Rightarrow> real \<Rightarrow> EllipticTrajectory \<Rightarrow> (real \<times> real) \<times> EllipticTrajectory" where
  "ET_get_delta rnd step s =
     (let s1 = snd (ET_get_next_position rnd step s)
      in ((fsub rnd (fst (et_curr_pos s1)) (fst (et_last_pos s1)),
           fsub rnd (snd (et_curr_pos s1)) (snd (et_last_pos s1))), s1))"

definition ET_init :: "rounding \<Rightarrow> real \<Rightarrow> real \<Rightarrow> real \<Rightarrow> EllipticTrajectory" where
  "ET_init rnd rotation x_length y_length =
     (let s0 = \<lparr>et_rotation = rotation, et_x_length = x_length, et_y_length = y_length,
                et_t = 0, et_curr_pos = (0, 0), et_last_pos = (0, 0)\<rparr>;
          (p, s1) = ET_get_next_position rnd 0 s0;
          s2 = s1\<lparr>et_last_pos := p\<rparr>
      in s2\<lparr>et_curr_pos := et_last_pos s2\<rparr>)"

section \<open>InterpolatedTrajectory\<close>

text \<open>
  A node is a Python tuple, modelled as the list of its fields so that its length can be
  wrong. Indices are natural numbers: the source only ever stores \<open>0\<close> or \<open>index + 1\<close>.
\<close>

record InterpolatedTrajectory =
  nodes :: "real list list"
  index :: nat
  next_index :: nat
  time :: real
  last_pos :: "real \<times> real"
  curr_pos :: "real \<times> real"
  target_time :: real

fun check_nodes :: "real list list \<Rightarrow> bool \<Rightarrow> error + bool" where
  "check_nodes [] found_nonzero_time = Inr found_nonzero_time"
| "check_nodes (node # rest) found_nonzero_time =
     (if length node \<noteq> 3 then Inl (ValueError_expected_3_values node)
      else check_nodes rest (if node ! 2 \<noteq> 0 then True else found_nonzero_time))"

definition get_next_index :: "InterpolatedTrajectory \<Rightarrow> nat" where
  "get_next_index st = (if index st + 1 \<ge> length (nodes st) then 0 else index st + 1)"

definition go_to_next_index :: "InterpolatedTrajectory \<Rightarrow> InterpolatedTrajectory" where
  "go_to_next_index st =
     (let st1 = st\<lparr>index := next_index st\<rparr>;
          st2 = st1\<lparr>next_index := get_next_index st1\<rparr>
      in st2\<lparr>target_time := nodes st2 ! index st2 ! 2\<rparr>)"

definition IT_init :: "real list list \<Rightarrow> error + InterpolatedTrajectory" where
  "IT_init ns =
     (case check_nodes ns False of
        Inl e \<Rightarrow> Inl e
      | Inr found_nonzero_time \<Rightarrow>
          if \<not> found_nonzero_time then Inl ValueError_no_nonzero_time
          else (let st0 = \<lparr>nodes = ns, index = 0, next_index = 0, time = 0,
                           last_pos = (ns ! 0 ! 0, ns ! 0 ! 1),
                           curr_pos = (ns ! 0 ! 0, ns ! 0 ! 1),
                           target_time = ns ! 0 ! 2\<rparr>
                in Inr (st0\<lparr>next_index := get_next_index st0\<rparr>)))"

partial_function (option) skip_zero_time ::
  "InterpolatedTrajectory \<Rightarrow> InterpolatedTrajectory option" where
  "skip_zero_time st =
     (if target_time st = 0 then skip_zero_time (go_to_next_index st) else Some st)"

definition clamp_residue :: "real \<Rightarrow> real" where
  "clamp_residue remaining_step = (if remaining_step < 0 then 0 else remaining_step)"

partial_function (option) overshoot_loop ::
  "rounding \<Rightarrow> real \<Rightarrow> InterpolatedTrajectory \<Rightarrow> (real \<times> InterpolatedTrajectory) option" where
  "overshoot_loop rnd remaining_step st =
     (if remaining_step \<ge> target_time st
      then overshoot_loop rnd (clamp_residue (fsub rnd remaining_step (target_time st)))
             (go_to_next_index st)
      else Some (remaining_step, st))"

definition consume_step ::
  "rounding \<Rightarrow> real \<Rightarrow> InterpolatedTrajectory \<Rightarrow> InterpolatedTrajectory option" where
  "consume_step rnd step st =
     (if fadd rnd (time st) step \<ge> target_time st
      then (let remaining_step = fsub rnd step (fsub rnd (target_time st) (time st))
            in case overshoot_loop rnd remaining_step (go_to_next_index st) of
                 None \<Rightarrow> None
               | Some (r, st1) \<Rightarrow> Some (st1\<lparr>time := r\<rparr>))
      else Some (st\<lparr>time := fadd rnd (time st) step\<rparr>))"

definition interpolate :: "rounding \<Rightarrow> InterpolatedTrajectory \<Rightarrow> error + InterpolatedTrajectory" where
  "interpolate rnd st =
     (let start_x = nodes st ! index st ! 0;
          delta_x = fsub rnd (nodes st ! next_index st ! 0) start_x;
          start_y = nodes st ! index st ! 1;
          delta_y = fsub rnd (nodes st ! next_index st ! 1) start_y
      in if target_time st = 0 then Inl ZeroDivisionError
         else Inr (st\<lparr>last_pos := curr_pos st,
                      curr_pos :=
                        (fadd rnd start_x (fdiv rnd (fmul rnd delta_x (time st)) (target_time st)),
                         fadd rnd start_y (fdiv rnd (fmul rnd delta_y (time st)) (target_time st)))\<rparr>))"

text \<open>
  \<open>None\<close>: the call does not return (one of the two loops runs forever).
  \<open>Some (Inl e)\<close>: the call raises \<open>e\<close>. \<open>Some (Inr st)\<close>: the call returns
  \<open>curr_pos st\<close> and leaves the object in state \<open>st\<close>.
\<close>

definition IT_get_next_position ::
  "rounding \<Rightarrow> real \<Rightarrow> InterpolatedTrajectory \<Rightarrow> (error + InterpolatedTrajectory) option" where
  "IT_get_next_position rnd step st =
     (case skip_zero_time st of
        None \<Rightarrow> None
      | Some st1 \<Rightarrow>
          (case consume_step rnd step st1 of
             None \<Rightarrow> None
           | Some st2 \<Rightarrow> Some (interpolate rnd st2)))"

definition IT_get_delta ::
  "rounding \<Rightarrow> real \<Rightarrow> InterpolatedTrajectory
     \<Rightarrow> (error + (real \<times> real) \<times> InterpolatedTrajectory) option" where
  "IT_get_delta rnd step st =
     (case IT_get_next_position rnd step st of
        None \<Rightarrow> None
      | Some (Inl e) \<Rightarrow> Some (Inl e)
      | Some (Inr st1) \<Rightarrow>
          Some (Inr ((fsub rnd (fst (curr_pos st1)) (fst (last_pos st1)),
                      fsub rnd (snd (curr_pos st1)) (snd (last_pos st1))), st1)))"

text \<open>Successive calls of \<open>get_next_position\<close> on one object, one per step of the list.\<close>

fun IT_run ::
  "rounding \<Rightarrow> real list \<Rightarrow> InterpolatedTrajectory \<Rightarrow> (error + InterpolatedTrajectory) option" where
  "IT_run rnd [] st = Some (Inr st)"
| "IT_run rnd (step # steps) st =
     (case IT_get_next_position rnd step st of
        None \<Rightarrow> None
      | Some (Inl e) \<Rightarrow> Some (Inl e)
      | Some (Inr st1) \<Rightarrow> IT_run rnd steps st1)"

fun ET_run :: "rounding \<Rightarrow> real list \<Rightarrow> EllipticTrajectory \<Rightarrow> EllipticTrajectory" where
  "ET_run rnd [] s = s"
| "ET_run rnd (step # steps) s = ET_run rnd steps (snd (ET_get_next_position rnd step s))"

text \<open>The deltas returned by \<open>n\<close> successive calls of \<open>get_delta\<close> with the same step.\<close>

fun IT_deltas ::
  "rounding \<Rightarrow> real \<Rightarrow> nat \<Rightarrow> InterpolatedTrajectory \<Rightarrow> (error + (real \<times> real) list) option" where
  "IT_deltas rnd step 0 st = Some (Inr [])"
| "IT_deltas rnd step (Suc n) st =
     (case IT_get_delta rnd step st of
        None \<Rightarrow> None
      | Some (Inl e) \<Rightarrow> Some (Inl e)
      | Some (Inr (d, st1)) \<Rightarrow>
          (case IT_deltas rnd step n st1 of
             None \<Rightarrow> None
           | Some (Inl e) \<Rightarrow> Some (Inl e)
           | Some (Inr ds) \<Rightarrow> Some (Inr (d # ds))))"

fun ET_deltas :: "rounding \<Rightarrow> real \<Rightarrow> nat \<Rightarrow> EllipticTrajectory \<Rightarrow> (real \<times> real) list" where
  "ET_deltas rnd step 0 s = []"
| "ET_deltas rnd step (Suc n) s =
     fst (ET_get_delta rnd step s) # ET_deltas rnd step n (snd (ET_get_delta rnd step s))"

section \<open>The sampling loop of main\<close>

text \<open>
  The two SVG paths are modelled as the lists of commands pushed to them, each command
  with the numbers handed to the format string; formatting them as text, the progress
  messages and saving the drawing are left out.
\<close>

datatype path_command = MoveTo real real | LineRel real real

record sampler =
  parent :: InterpolatedTrajectory
  et_1 :: EllipticTrajectory
  et_2 :: EllipticTrajectory
  path_1 :: "path_command list"
  path_2 :: "path_command list"

definition loop_body :: "rounding \<Rightarrow> real \<Rightarrow> real \<Rightarrow> real \<Rightarrow> sampler \<Rightarrow> (error + sampler) option" where
  "loop_body rnd step PARENT_SCALE ELLIPSE_SCALE ms =
     (case IT_get_delta rnd (fmul rnd step PARENT_SCALE) (parent ms) of
        None \<Rightarrow> None
      | Some (Inl e) \<Rightarrow> Some (Inl e)
      | Some (Inr (parent_delta, parent1)) \<Rightarrow>
          (let (et_1_delta, et_1a) = ET_get_delta rnd (fmul rnd step ELLIPSE_SCALE) (et_1 ms);
               (et_2_delta, et_2a) = ET_get_delta rnd (fmul rnd step ELLIPSE_SCALE) (et_2 ms)
           in Some (Inr \<lparr>parent = parent1, et_1 = et_1a, et_2 = et_2a,
                path_1 = path_1 ms @
                  [LineRel (fadd rnd (fst parent_delta) (fst et_1_delta))
                           (fadd rnd (snd parent_delta) (snd et_1_delta))],
                path_2 = path_2 ms @
                  [LineRel (fadd rnd (fst parent_delta) (fst et_2_delta))
                           (fadd rnd (snd parent_delta) (snd et_2_delta))]\<rparr>)))"

fun main_loop ::
  "rounding \<Rightarrow> real \<Rightarrow> real \<Rightarrow> real \<Rightarrow> nat \<Rightarrow> sampler \<Rightarrow> (error + sampler) option" where
  "main_loop rnd step PARENT_SCALE ELLIPSE_SCALE 0 ms = Some (Inr ms)"
| "main_loop rnd step PARENT_SCALE ELLIPSE_SCALE (Suc n) ms =
     (case loop_body rnd step PARENT_SCALE ELLIPSE_SCALE ms of
        None \<Rightarrow> None
      | Some (Inl e) \<Rightarrow> Some (Inl e)
      | Some (Inr ms1) \<Rightarrow> main_loop rnd step PARENT_SCALE ELLIPSE_SCALE n ms1)"

definition HEART_NODES :: "real list list" where
  "HEART_NODES =
     [[1042.397, 0.0, 2], [222.128, 798.490, 1], [75.494, 1003.194, 1], [0.0, 1286.295, 1],
      [2.908, 1493.902, 1], [76.948, 1740.708, 1], [239.549, 1927.991, 1],
      [371.661, 2007.840, 1], [541.524, 2045.586, 1], [707.029, 2013.647, 1],
      [823.173, 1927.991, 1], [904.474, 1881.533, 1], [1042.397, 1871.370, 1],
      [1180.316, 1881.533, 1], [1261.617, 1927.991, 1], [1377.761, 2013.647, 1],
      [1543.266, 2045.586, 1], [1713.124, 2007.840, 1], [1845.240, 1927.991, 1],
      [2007.842, 1740.708, 1], [2081.886, 1493.902, 1], [2084.785, 1286.295, 1],
      [2009.291, 1003.194, 1], [1862.662, 798.490, 2]]"

definition main :: "rounding \<Rightarrow> (error + sampler) option" where
  "main rnd =
     (let ELLIPSE_SCALE = fmul rnd 2 (PI rnd);
          PARENT_SCALE = 2;
          e1 = ET_init rnd (fdiv rnd (PI rnd) 4) 200 25;
          e2 = ET_init rnd (fdiv rnd (fmul rnd 3 (PI rnd)) 4) 200 25
      in case IT_init (map (map rnd) HEART_NODES) of
           Inl e \<Rightarrow> Some (Inl e)
         | Inr p \<Rightarrow>
             main_loop rnd (rnd 0.005) PARENT_SCALE ELLIPSE_SCALE 3000
               \<lparr>parent = p, et_1 = e1, et_2 = e2,
                path_1 = [MoveTo (fadd rnd (fst (curr_pos p)) (fst (et_curr_pos e1)))
                                 (fadd rnd (snd (curr_pos p)) (snd (et_curr_pos e1)))],
                path_2 = [MoveTo (fadd rnd (fst (curr_pos p)) (fst (et_curr_pos e2)))
                                 (fadd rnd (snd (curr_pos p)) (snd (et_curr_pos e2)))]\<rparr>)"

section \<open>Notions used to state the properties\<close>

text \<open>
  The waypoint list invariant: at least one node, every node a triple with a duration
  that is not negative, and some duration positive.
\<close>

definition valid_nodes :: "real list list \<Rightarrow> bool" where
  "valid_nodes ns \<longleftrightarrow>
     ns \<noteq> [] \<and> (\<forall>n \<in> set ns. length n = 3 \<and> 0 \<le> n ! 2) \<and> (\<exists>n \<in> set ns. 0 < n ! 2)"

definition total_duration :: "real list list \<Rightarrow> real" where
  "total_duration ns = sum_list (map (\<lambda>n. n ! 2) ns)"

text \<open>The duration of the segment \<open>i\<close> places along the cycle, and of \<open>k\<close> segments from there.\<close>

definition dur :: "real list list \<Rightarrow> nat \<Rightarrow> real" where
  "dur ns i = ns ! (i mod length ns) ! 2"

definition dur_sum :: "real list list \<Rightarrow> nat \<Rightarrow> nat \<Rightarrow> real" where
  "dur_sum ns i k = (\<Sum>j<k. dur ns (i + j))"

text \<open>The point of segment \<open>i\<close> reached after the elapsed time \<open>e\<close>, in exact arithmetic.\<close>

definition segment_point :: "real list list \<Rightarrow> nat \<Rightarrow> real \<Rightarrow> real \<times> real" where
  "segment_point ns i e =
     (let j = (i + 1) mod length ns
      in (ns ! i ! 0 + (ns ! j ! 0 - ns ! i ! 0) * e / (ns ! i ! 2),
          ns ! i ! 1 + (ns ! j ! 1 - ns ! i ! 1) * e / (ns ! i ! 2)))"

text \<open>
  The fields of a state fit together: the indices are in range, the next index follows
  the index cyclically, and the target time is the duration of the current node.
\<close>

definition state_ok :: "InterpolatedTrajectory \<Rightarrow> bool" where
  "state_ok st \<longleftrightarrow>
     valid_nodes (nodes st) \<and> index st < length (nodes st)
     \<and> next_index st = (index st + 1) mod length (nodes st)
     \<and> target_time st = nodes st ! index st ! 2"

text \<open>The state between two calls: inside a segment of positive duration.\<close>

definition positioned :: "InterpolatedTrajectory \<Rightarrow> bool" where
  "positioned st \<longleftrightarrow>
     state_ok st \<and> 0 < target_time st \<and> 0 \<le> time st \<and> time st < target_time st"

section \<open>Construction of an InterpolatedTrajectory\<close>

lemma check_nodes_bad:
  "\<exists>n\<in>set ns. length n \<noteq> 3 \<Longrightarrow> \<exists>e. check_nodes ns f = Inl e"
  by (induction ns arbitrary: f) auto

lemma check_nodes_good:
  "\<forall>n\<in>set ns. length n = 3 \<Longrightarrow>
   check_nodes ns f = Inr (f \<or> (\<exists>n\<in>set ns. n ! 2 \<noteq> 0))"
  by (induction ns arbitrary: f) auto

lemma check_nodes_error: "check_nodes ns f \<noteq> Inl ZeroDivisionError"
  by (induction ns arbitrary: f) auto

text \<open>
  C1, as the code has it. The constructor raises exactly when some node does not have
  three fields or no node has a duration different from zero (the test is
  \<open>node[2] != 0.0\<close>, so a negative duration counts), and what it raises is one of
  the two ValueErrors. When all nodes have three fields and some duration is not zero, it
  returns the state with index 0, elapsed time 0 and the position of the first node.
\<close>

theorem IT_init_raises_iff:
  "((\<exists>e. IT_init ns = Inl e) \<longleftrightarrow>
      ((\<exists>n\<in>set ns. length n \<noteq> 3) \<or> (\<forall>n\<in>set ns. n ! 2 = 0)))
   \<and> IT_init ns \<noteq> Inl ZeroDivisionError
   \<and> ((\<forall>n\<in>set ns. length n = 3) \<and> (\<exists>n\<in>set ns. n ! 2 \<noteq> 0) \<longrightarrow>
        (\<exists>st. IT_init ns = Inr st \<and> nodes st = ns \<and> index st = 0 \<and> time st = 0
            \<and> curr_pos st = (ns ! 0 ! 0, ns ! 0 ! 1)))"
proof (cases "\<exists>n\<in>set ns. length n \<noteq> 3")
  case True
  then obtain e where e: "check_nodes ns False = Inl e"
    using check_nodes_bad by blast
  then have "e \<noteq> ZeroDivisionError" using check_nodes_error [of ns False] by auto
  moreover have "IT_init ns = Inl e" using e by (simp add: IT_init_def)
  ultimately show ?thesis using True by auto
next
  case False
  then have "check_nodes ns False = Inr (\<exists>n\<in>set ns. n ! 2 \<noteq> 0)"
    using check_nodes_good [of ns False] by simp
  with False show ?thesis
    by (auto simp: IT_init_def Let_def)
qed

theorem IT_init_raises_iff_witness:
  "\<exists>st. IT_init [[0, 0, 0], [3, 4, 1]] = Inr st \<and> nodes st = [[0, 0, 0], [3, 4, 1]]
        \<and> index st = 0 \<and> time st = 0 \<and> curr_pos st = (0, 0)"
  using IT_init_raises_iff [of "[[0, 0, 0], [3, 4, 1]]"] by simp

text \<open>
  C1 as stated fails: the single node \<open>(0, 0, -1)\<close> has three fields and no positive
  duration, and the constructor accepts it.
\<close>

theorem IT_init_negative_duration_accepted:
  "IT_init [[0, 0, - 1]] =
     Inr \<lparr>nodes = [[0, 0, - 1]], index = 0, next_index = 0, time = 0, last_pos = (0, 0),
          curr_pos = (0, 0), target_time = - 1\<rparr>
   \<and> length [0, 0, - 1 :: real] = 3 \<and> \<not> 0 < [0, 0, - 1 :: real] ! 2"
  by (simp add: IT_init_def get_next_index_def)

text \<open>
  C10. The empty list is rejected with ValueError: the loop over the nodes finds no
  duration different from zero, and no node is read.
\<close>

theorem IT_init_empty: "IT_init [] = Inl ValueError_no_nonzero_time"
  by (simp add: IT_init_def)

section \<open>Exact arithmetic: the walk along the cycle\<close>

lemma exact_ops [simp]:
  "fadd exact a b = a + b" "fsub exact a b = a - b" "fmul exact a b = a * b"
  "fdiv exact a b = a / b" "fcos exact a = cos a" "fsin exact a = sin a" "PI exact = pi"
  by (simp_all add: fadd_def fsub_def fmul_def fdiv_def fcos_def fsin_def PI_def exact_def)

lemma go_to_next_index_fields [simp]:
  "nodes (go_to_next_index st) = nodes st"
  "time (go_to_next_index st) = time st"
  "last_pos (go_to_next_index st) = last_pos st"
  "curr_pos (go_to_next_index st) = curr_pos st"
  by (simp_all add: go_to_next_index_def Let_def)

lemma go_to_next_index_index: "index (go_to_next_index st) = next_index st"
  by (simp add: go_to_next_index_def Let_def)

lemma valid_nodes_length: "valid_nodes ns \<Longrightarrow> 0 < length ns"
  by (simp add: valid_nodes_def)

lemma dur_nonneg: "valid_nodes ns \<Longrightarrow> 0 \<le> dur ns i"
  by (simp add: valid_nodes_def dur_def)

lemma dur_mod [simp]: "dur ns (i mod length ns) = dur ns i"
  by (simp add: dur_def)

lemma dur_add_mod [simp]: "dur ns (i mod length ns + j) = dur ns (i + j)"
  by (simp add: dur_def mod_add_left_eq)

lemma dur_sum_0 [simp]: "dur_sum ns i 0 = 0"
  by (simp add: dur_sum_def)

lemma dur_sum_Suc: "dur_sum ns i (Suc k) = dur_sum ns i k + dur ns (i + k)"
  by (simp add: dur_sum_def)

lemma dur_sum_add: "dur_sum ns i (a + b) = dur_sum ns i a + dur_sum ns (i + a) b"
  by (induction b) (simp_all add: dur_sum_Suc add.assoc)

lemma dur_sum_Suc_shift: "dur_sum ns i (Suc k) = dur ns i + dur_sum ns (Suc i) k"
  using dur_sum_add [of ns i 1 k] by (simp add: dur_sum_Suc)

lemma dur_sum_mod [simp]: "dur_sum ns (i mod length ns) k = dur_sum ns i k"
  by (simp add: dur_sum_def)

lemma dur_sum_nonneg: "valid_nodes ns \<Longrightarrow> 0 \<le> dur_sum ns i k"
  by (simp add: dur_sum_def sum_nonneg dur_nonneg)


lemma state_ok_go:
  assumes "state_ok st"
  shows "state_ok (go_to_next_index st)"
    and "index (go_to_next_index st) = (index st + 1) mod length (nodes st)"
    and "target_time (go_to_next_index st) = dur (nodes st) (index st + 1)"
proof -
  have n: "0 < length (nodes st)" using assms by (simp add: state_ok_def valid_nodes_def)
  show "index (go_to_next_index st) = (index st + 1) mod length (nodes st)"
    using assms by (simp add: state_ok_def go_to_next_index_index)
  show "target_time (go_to_next_index st) = dur (nodes st) (index st + 1)"
    using assms by (simp add: state_ok_def go_to_next_index_def Let_def dur_def)
  show "state_ok (go_to_next_index st)"
    using assms n
    by (auto simp: state_ok_def go_to_next_index_def Let_def get_next_index_def mod_Suc)
qed

lemma go_funpow_fields [simp]:
  "nodes ((go_to_next_index ^^ k) st) = nodes st"
  "time ((go_to_next_index ^^ k) st) = time st"
  "last_pos ((go_to_next_index ^^ k) st) = last_pos st"
  "curr_pos ((go_to_next_index ^^ k) st) = curr_pos st"
  by (induction k) simp_all

lemma state_ok_funpow:
  assumes "state_ok st"
  shows "state_ok ((go_to_next_index ^^ k) st)
         \<and> index ((go_to_next_index ^^ k) st) = (index st + k) mod length (nodes st)"
proof (induction k)
  case 0
  then show ?case using assms by (simp add: state_ok_def)
next
  case (Suc k)
  then show ?case using state_ok_go [of "(go_to_next_index ^^ k) st"]
    by (simp add: mod_Suc_eq)
qed

lemma state_ok_target: "state_ok st \<Longrightarrow> target_time st = dur (nodes st) (index st)"
  by (simp add: state_ok_def dur_def)

lemma target_funpow:
  "state_ok st \<Longrightarrow> target_time ((go_to_next_index ^^ k) st) = dur (nodes st) (index st + k)"
  using state_ok_funpow [of st k] state_ok_target [of "(go_to_next_index ^^ k) st"] by simp

lemma sum_cyclic_shift:
  fixes f :: "nat \<Rightarrow> real"
  assumes "0 < n"
  shows "(\<Sum>j<n. f ((i + j) mod n)) = (\<Sum>j<n. f j)"
proof (rule sum.reindex_bij_witness [where i = "\<lambda>j. (j + (n - i mod n)) mod n" and j = "\<lambda>j. (i + j) mod n"])
  fix a assume "a \<in> {..<n}"
  then have a: "a < n" by simp
  have "(i + a) mod n + (n - i mod n) = (i mod n + a) mod n + (n - i mod n)"
    by (simp add: mod_add_left_eq)
  have "((i + a) mod n + (n - i mod n)) mod n = (i + a + (n - i mod n)) mod n"
    by (simp add: mod_add_left_eq)
  also have "i + a + (n - i mod n) = a + n + (i - i mod n)"
    using assms by (simp add: less_imp_le_nat [OF mod_less_divisor])
  also have "\<dots> mod n = a"
    using a by (simp add: minus_mod_eq_mult_div)
  finally show "((i + a) mod n + (n - i mod n)) mod n = a" .
  show "(i + a) mod n \<in> {..<n}" using assms by simp
  show "f ((i + a) mod n) = f ((i + a) mod n)" ..
next
  fix b assume "b \<in> {..<n}"
  then have b: "b < n" by simp
  show "(b + (n - i mod n)) mod n \<in> {..<n}" using assms by simp
  have "(i + (b + (n - i mod n)) mod n) mod n = (i mod n + (b + (n - i mod n))) mod n"
    by (simp add: mod_add_right_eq mod_add_left_eq)
  also have "i mod n + (b + (n - i mod n)) = b + n"
    using mod_less_divisor [OF assms, of i] by linarith
  also have "\<dots> mod n = b" using b by simp
  finally show "(i + (b + (n - i mod n)) mod n) mod n = b" .
qed

lemma dur_sum_cycle:
  assumes "0 < length ns"
  shows "dur_sum ns i (length ns) = total_duration ns"
proof -
  have "dur_sum ns i (length ns) = (\<Sum>j<length ns. (\<lambda>j. ns ! j ! 2) ((i + j) mod length ns))"
    by (simp add: dur_sum_def dur_def)
  also have "\<dots> = (\<Sum>j<length ns. ns ! j ! 2)"
    by (rule sum_cyclic_shift [OF assms])
  also have "\<dots> = total_duration ns"
    by (simp add: total_duration_def sum_list_sum_nth atLeast0LessThan)
  finally show ?thesis .
qed

lemma dur_sum_cycles:
  "0 < length ns \<Longrightarrow> dur_sum ns i (m * length ns) = of_nat m * total_duration ns"
proof (induction m)
  case 0
  then show ?case by simp
next
  case (Suc m)
  have "dur_sum ns i (Suc m * length ns) = dur_sum ns i (m * length ns + length ns)"
    by (simp add: add.commute)
  also have "\<dots> = dur_sum ns i (m * length ns) + dur_sum ns (i + m * length ns) (length ns)"
    by (rule dur_sum_add)
  finally show ?case using Suc by (simp add: dur_sum_cycle algebra_simps)
qed

lemma total_duration_pos:
  assumes "valid_nodes ns"
  shows "0 < total_duration ns"
proof -
  have "\<forall>x\<in>set (map (\<lambda>n. n ! 2) ns). 0 \<le> x" using assms by (auto simp: valid_nodes_def)
  moreover obtain n where "n \<in> set ns" "0 < n ! 2" using assms by (auto simp: valid_nodes_def)
  ultimately show ?thesis
    unfolding total_duration_def
    by (metis (no_types, lifting) image_eqI list.set_map member_le_sum_list not_less sum_list_nonneg_eq_0_iff
        order_less_le sum_list_nonneg)
qed

lemma dur_sum_unbounded:
  assumes "valid_nodes ns"
  shows "\<exists>k. r < dur_sum ns i k"
proof -
  have T: "0 < total_duration ns" by (rule total_duration_pos [OF assms])
  obtain m :: nat where "r / total_duration ns < of_nat m"
    using reals_Archimedean2 by blast
  then have "r < of_nat m * total_duration ns"
    using T by (simp add: pos_divide_less_eq)
  then have "r < dur_sum ns i (m * length ns)"
    using dur_sum_cycles [of ns i m] valid_nodes_length [OF assms] by simp
  then show ?thesis ..
qed

lemma clamp_residue_nonneg [simp]: "0 \<le> r \<Longrightarrow> clamp_residue r = r"
  by (simp add: clamp_residue_def)

lemma overshoot_span:
  "state_ok st \<Longrightarrow> dur_sum (nodes st) (index st) k \<le> r \<Longrightarrow>
   overshoot_loop exact r st =
   overshoot_loop exact (r - dur_sum (nodes st) (index st) k) ((go_to_next_index ^^ k) st)"
proof (induction k arbitrary: st r)
  case 0
  then show ?case by simp
next
  case (Suc k)
  let ?ns = "nodes st" and ?i = "index st"
  have v: "valid_nodes ?ns" using Suc.prems(1) by (simp add: state_ok_def)
  have sp: "dur_sum ?ns ?i (Suc k) = dur ?ns ?i + dur_sum ?ns (Suc ?i) k"
    by (rule dur_sum_Suc_shift)
  have tgt: "target_time st = dur ?ns ?i"
    by (rule state_ok_target [OF Suc.prems(1)])
  have ge: "target_time st \<le> r"
    using Suc.prems(2) sp tgt dur_sum_nonneg [OF v, of "Suc ?i" k] by linarith
  have rest: "dur_sum ?ns (Suc ?i) k \<le> r - target_time st"
    using Suc.prems(2) sp tgt by linarith
  have nonneg: "0 \<le> r - target_time st"
    using rest dur_sum_nonneg [OF v, of "Suc ?i" k] by linarith
  let ?st1 = "go_to_next_index st"
  have ok1: "state_ok ?st1" and i1: "index ?st1 = (?i + 1) mod length ?ns"
    using state_ok_go [OF Suc.prems(1)] by simp_all
  have sp1: "dur_sum ?ns (index ?st1) k = dur_sum ?ns (Suc ?i) k"
    by (simp add: i1)
  have "overshoot_loop exact r st = overshoot_loop exact (r - target_time st) ?st1"
    using ge nonneg by (subst overshoot_loop.simps) simp
  also have "\<dots> = overshoot_loop exact (r - target_time st - dur_sum (nodes ?st1) (index ?st1) k)
                      ((go_to_next_index ^^ k) ?st1)"
    by (rule Suc.IH [OF ok1]) (simp add: sp1 rest)
  also have "r - target_time st - dur_sum (nodes ?st1) (index ?st1) k = r - dur_sum ?ns ?i (Suc k)"
    by (simp add: sp1 sp tgt)
  also have "(go_to_next_index ^^ k) ?st1 = (go_to_next_index ^^ Suc k) st"
    by (simp add: funpow_swap1)
  finally show ?case .
qed

lemma overshoot_returns:
  assumes ok: "state_ok st" and r: "0 \<le> r"
  shows "\<exists>k r'. overshoot_loop exact r st = Some (r', (go_to_next_index ^^ k) st)
           \<and> r = dur_sum (nodes st) (index st) k + r' \<and> 0 \<le> r'
           \<and> r' < dur (nodes st) (index st + k)"
proof -
  let ?ns = "nodes st" and ?i = "index st"
  have v: "valid_nodes ?ns" using ok by (simp add: state_ok_def)
  define k where "k = (LEAST k. r < dur_sum ?ns ?i (Suc k))"
  have ex: "\<exists>k. r < dur_sum ?ns ?i (Suc k)"
  proof -
    obtain m where m: "r < dur_sum ?ns ?i m" using dur_sum_unbounded [OF v] by blast
    then have "m \<noteq> 0" using r by (auto intro: ccontr)
    then obtain m' where "m = Suc m'" by (cases m) auto
    with m show ?thesis by blast
  qed
  have less: "r < dur_sum ?ns ?i (Suc k)"
    unfolding k_def using ex by (rule LeastI_ex)
  have ge: "dur_sum ?ns ?i k \<le> r"
  proof (cases k)
    case 0
    then show ?thesis using r by simp
  next
    case (Suc j)
    have "\<not> r < dur_sum ?ns ?i (Suc j)"
      using not_less_Least [of j "\<lambda>k. r < dur_sum ?ns ?i (Suc k)"] Suc by (simp add: k_def)
    then show ?thesis using Suc by simp
  qed
  let ?st' = "(go_to_next_index ^^ k) st"
  let ?r' = "r - dur_sum ?ns ?i k"
  have lt: "?r' < dur ?ns (?i + k)" using less by (simp add: dur_sum_Suc)
  have "overshoot_loop exact r st = overshoot_loop exact ?r' ?st'"
    by (rule overshoot_span [OF ok ge])
  also have "\<dots> = Some (?r', ?st')"
    using lt target_funpow [OF ok, of k] by (subst overshoot_loop.simps) simp
  finally show ?thesis using ge lt by (intro exI [of _ k] exI [of _ ?r']) simp
qed

lemma skip_zero_run:
  "state_ok st \<Longrightarrow> \<forall>j<k. dur (nodes st) (index st + j) = 0 \<Longrightarrow>
   skip_zero_time st = skip_zero_time ((go_to_next_index ^^ k) st)"
proof (induction k)
  case 0
  then show ?case by simp
next
  case (Suc k)
  let ?st' = "(go_to_next_index ^^ k) st"
  have "skip_zero_time st = skip_zero_time ?st'" using Suc by simp
  also have "target_time ?st' = 0"
    using target_funpow [OF Suc.prems(1), of k] Suc.prems(2) by simp
  then have "skip_zero_time ?st' = skip_zero_time (go_to_next_index ?st')"
    by (subst skip_zero_time.simps) simp
  finally show ?case by simp
qed

lemma dur_pos_ex:
  assumes "valid_nodes ns"
  shows "\<exists>k. 0 < dur ns (i + k)"
proof -
  obtain n where n: "n \<in> set ns" "0 < n ! 2" using assms by (auto simp: valid_nodes_def)
  then obtain p where p: "p < length ns" "ns ! p = n" by (auto simp: in_set_conv_nth)
  let ?L = "length ns"
  have "(i + (p + (?L - i mod ?L))) mod ?L = (i mod ?L + (p + (?L - i mod ?L))) mod ?L"
    by (simp add: mod_add_left_eq)
  also have "i mod ?L + (p + (?L - i mod ?L)) = p + ?L"
    using mod_less_divisor [of ?L i] p by linarith
  finally have "(i + (p + (?L - i mod ?L))) mod ?L = p" using p by simp
  then have "dur ns (i + (p + (?L - i mod ?L))) = n ! 2" using p by (simp add: dur_def)
  then show ?thesis using n by (intro exI [of _ "p + (?L - i mod ?L)"]) simp
qed

lemma skip_zero_time_returns:
  assumes ok: "state_ok st"
  shows "\<exists>k. skip_zero_time st = Some ((go_to_next_index ^^ k) st)
           \<and> (\<forall>j<k. dur (nodes st) (index st + j) = 0)
           \<and> 0 < dur (nodes st) (index st + k)"
proof -
  let ?ns = "nodes st" and ?i = "index st"
  have v: "valid_nodes ?ns" using ok by (simp add: state_ok_def)
  define k where "k = (LEAST k. 0 < dur ?ns (?i + k))"
  have pos: "0 < dur ?ns (?i + k)"
    unfolding k_def using dur_pos_ex [OF v] by (rule LeastI_ex)
  have zero: "\<forall>j<k. dur ?ns (?i + j) = 0"
  proof (intro allI impI)
    fix j assume "j < k"
    then have "\<not> 0 < dur ?ns (?i + j)"
      using not_less_Least [of j "\<lambda>k. 0 < dur ?ns (?i + k)"] by (simp add: k_def)
    then show "dur ?ns (?i + j) = 0" using dur_nonneg [OF v, of "?i + j"] by linarith
  qed
  let ?st' = "(go_to_next_index ^^ k) st"
  have "skip_zero_time st = skip_zero_time ?st'"
    by (rule skip_zero_run [OF ok zero])
  also have "\<dots> = Some ?st'"
    using pos target_funpow [OF ok, of k] by (subst skip_zero_time.simps) simp
  finally show ?thesis using zero pos by blast
qed

lemma state_ok_time_update [simp]: "state_ok (st\<lparr>time := e\<rparr>) = state_ok st"
  by (simp add: state_ok_def)

lemma interpolate_exact:
  assumes "positioned st"
  shows "interpolate exact st =
         Inr (st\<lparr>last_pos := curr_pos st,
                 curr_pos := segment_point (nodes st) (index st) (time st)\<rparr>)"
  using assms
  by (simp add: positioned_def state_ok_def interpolate_def segment_point_def Let_def)

lemma consume_step_exact:
  assumes pos: "positioned st" and s: "0 \<le> s"
  shows "\<exists>k st'. consume_step exact s st = Some st' \<and> positioned st'
           \<and> nodes st' = nodes st
           \<and> index st' = (index st + k) mod length (nodes st)
           \<and> time st + s = dur_sum (nodes st) (index st) k + time st'
           \<and> last_pos st' = last_pos st \<and> curr_pos st' = curr_pos st"
proof (cases "target_time st \<le> time st + s")
  case False
  let ?st' = "st\<lparr>time := time st + s\<rparr>"
  have "consume_step exact s st = Some ?st'"
    using False by (simp add: consume_step_def)
  moreover have "positioned ?st'"
    using pos s False by (simp add: positioned_def state_ok_def)
  moreover have "index ?st' = (index st + 0) mod length (nodes st)"
    using pos by (simp add: positioned_def state_ok_def)
  ultimately show ?thesis
    by (intro exI [of _ 0] exI [of _ ?st']) simp
next
  case True
  let ?ns = "nodes st" and ?i = "index st"
  have ok: "state_ok st" using pos by (simp add: positioned_def)
  let ?r = "s - (target_time st - time st)"
  let ?st1 = "go_to_next_index st"
  have r: "0 \<le> ?r" using True by simp
  have ok1: "state_ok ?st1" and i1: "index ?st1 = (?i + 1) mod length ?ns"
    using state_ok_go [OF ok] by simp_all
  obtain k r' where
    loop: "overshoot_loop exact ?r ?st1 = Some (r', (go_to_next_index ^^ k) ?st1)"
    and eq: "?r = dur_sum (nodes ?st1) (index ?st1) k + r'"
    and r': "0 \<le> r'" "r' < dur (nodes ?st1) (index ?st1 + k)"
    using overshoot_returns [OF ok1 r] by blast
  let ?st2 = "(go_to_next_index ^^ k) ?st1"
  let ?st' = "?st2\<lparr>time := r'\<rparr>"
  have ok2: "state_ok ?st2" and i2: "index ?st2 = (index ?st1 + k) mod length ?ns"
    using state_ok_funpow [OF ok1, of k] by simp_all
  have t2: "target_time ?st2 = dur ?ns (index ?st1 + k)"
    using target_funpow [OF ok1, of k] by simp
  have "consume_step exact s st = Some ?st'"
    using True loop by (simp add: consume_step_def)
  moreover have "positioned ?st'"
    using ok2 r' t2 by (simp add: positioned_def)
  moreover have "index ?st' = (?i + Suc k) mod length ?ns"
    using i2 i1 by (simp add: mod_add_left_eq)
  moreover have "time st + s = dur_sum ?ns ?i (Suc k) + time ?st'"
    using eq state_ok_target [OF ok] by (simp add: dur_sum_Suc_shift i1)
  ultimately show ?thesis
    by (intro exI [of _ "Suc k"] exI [of _ ?st']) simp
qed

lemma dur_sum_zero: "\<forall>j<k. dur ns (i + j) = 0 \<Longrightarrow> dur_sum ns i k = 0"
  by (simp add: dur_sum_def)

lemma advance_exact:
  assumes ok: "state_ok st" and t0: "0 \<le> time st"
    and tl: "time st < target_time st \<or> time st = 0" and s: "0 \<le> s"
  shows "\<exists>k st'. IT_get_next_position exact s st = Some (Inr st') \<and> positioned st'
           \<and> nodes st' = nodes st
           \<and> index st' = (index st + k) mod length (nodes st)
           \<and> time st + s = dur_sum (nodes st) (index st) k + time st'
           \<and> last_pos st' = curr_pos st
           \<and> curr_pos st' = segment_point (nodes st) (index st') (time st')"
proof -
  let ?ns = "nodes st" and ?i = "index st"
  obtain k0 where skip: "skip_zero_time st = Some ((go_to_next_index ^^ k0) st)"
    and zero: "\<forall>j<k0. dur ?ns (?i + j) = 0" and dpos: "0 < dur ?ns (?i + k0)"
    using skip_zero_time_returns [OF ok] by blast
  let ?st1 = "(go_to_next_index ^^ k0) st"
  have ok1: "state_ok ?st1" and i1: "index ?st1 = (?i + k0) mod length ?ns"
    using state_ok_funpow [OF ok, of k0] by simp_all
  have t1: "target_time ?st1 = dur ?ns (?i + k0)"
    by (rule target_funpow [OF ok])
  have lt: "time st < target_time ?st1"
  proof (cases "time st = 0")
    case True
    then show ?thesis using dpos t1 by simp
  next
    case False
    then have "0 < target_time st" using tl t0 by linarith
    then have "0 < dur ?ns (?i + 0)" using state_ok_target [OF ok] by simp
    then have "k0 = 0" using zero by (cases k0) force+
    then show ?thesis using tl False by simp
  qed
  have pos1: "positioned ?st1"
    using ok1 t1 dpos t0 lt by (simp add: positioned_def)
  obtain k st2 where c: "consume_step exact s ?st1 = Some st2" and pos2: "positioned st2"
    and n2: "nodes st2 = ?ns"
    and i2: "index st2 = (index ?st1 + k) mod length ?ns"
    and e2: "time st + s = dur_sum ?ns (index ?st1) k + time st2"
    and p2: "last_pos st2 = last_pos st" "curr_pos st2 = curr_pos st"
    using consume_step_exact [OF pos1 s] by auto
  let ?st' = "st2\<lparr>last_pos := curr_pos st2,
                  curr_pos := segment_point (nodes st2) (index st2) (time st2)\<rparr>"
  have "IT_get_next_position exact s st = Some (Inr ?st')"
    using skip c interpolate_exact [OF pos2] by (simp add: IT_get_next_position_def)
  moreover have "positioned ?st'"
    using pos2 by (simp add: positioned_def state_ok_def)
  moreover have "index ?st' = (?i + (k0 + k)) mod length ?ns"
    using i2 i1 by (simp add: mod_add_left_eq add.assoc)
  moreover have "time st + s = dur_sum ?ns ?i (k0 + k) + time ?st'"
    using e2 dur_sum_zero [OF zero] by (simp add: dur_sum_add i1)
  ultimately show ?thesis
    using n2 p2 by (intro exI [of _ "k0 + k"] exI [of _ ?st']) simp
qed


lemma IT_init_valid:
  assumes "valid_nodes ns"
  shows "\<exists>st0. IT_init ns = Inr st0 \<and> state_ok st0 \<and> nodes st0 = ns \<and> index st0 = 0
           \<and> time st0 = 0 \<and> curr_pos st0 = (ns ! 0 ! 0, ns ! 0 ! 1)"
proof -
  have len: "\<forall>n\<in>set ns. length n = 3" and nz: "\<exists>n\<in>set ns. n ! 2 \<noteq> 0" and ne: "ns \<noteq> []"
    using assms by (force simp: valid_nodes_def)+
  have "check_nodes ns False = Inr True"
    using check_nodes_good [OF len, of False] nz by simp
  then show ?thesis
    using assms ne
    by (cases ns) (auto simp: IT_init_def Let_def state_ok_def get_next_index_def)
qed

lemma run_exact:
  assumes "steps \<noteq> []" and "\<forall>s\<in>set steps. 0 \<le> s"
    and "state_ok st" and "0 \<le> time st" and "time st < target_time st \<or> time st = 0"
  shows "\<exists>k st'. IT_run exact steps st = Some (Inr st') \<and> positioned st'
           \<and> nodes st' = nodes st
           \<and> index st' = (index st + k) mod length (nodes st)
           \<and> time st + sum_list steps = dur_sum (nodes st) (index st) k + time st'
           \<and> curr_pos st' = segment_point (nodes st) (index st') (time st')"
  using assms
proof (induction steps arbitrary: st)
  case Nil
  then show ?case by simp
next
  case (Cons s steps)
  let ?ns = "nodes st" and ?i = "index st"
  have s: "0 \<le> s" using Cons.prems(2) by simp
  obtain k1 st1 where a: "IT_get_next_position exact s st = Some (Inr st1)"
    and pos1: "positioned st1" and n1: "nodes st1 = ?ns"
    and i1: "index st1 = (?i + k1) mod length ?ns"
    and e1: "time st + s = dur_sum ?ns ?i k1 + time st1"
    and c1: "curr_pos st1 = segment_point ?ns (index st1) (time st1)"
    using advance_exact [OF Cons.prems(3) Cons.prems(4) Cons.prems(5) s] by blast
  show ?case
  proof (cases "steps = []")
    case True
    then show ?thesis using a pos1 n1 i1 e1 c1 by auto
  next
    case False
    have ok1: "state_ok st1" "0 \<le> time st1" "time st1 < target_time st1 \<or> time st1 = 0"
      using pos1 by (simp_all add: positioned_def)
    have nn: "\<forall>s\<in>set steps. 0 \<le> s" using Cons.prems(2) by simp
    obtain k2 st2 where r: "IT_run exact steps st1 = Some (Inr st2)"
      and pos2: "positioned st2" and n2: "nodes st2 = nodes st1"
      and i2: "index st2 = (index st1 + k2) mod length (nodes st1)"
      and e2: "time st1 + sum_list steps = dur_sum (nodes st1) (index st1) k2 + time st2"
      and c2: "curr_pos st2 = segment_point (nodes st1) (index st2) (time st2)"
      using Cons.IH [OF False nn ok1] by blast
    have "IT_run exact (s # steps) st = Some (Inr st2)" using a r by simp
    moreover have "index st2 = (?i + (k1 + k2)) mod length ?ns"
      using i2 i1 n1 by (simp add: mod_add_left_eq add.assoc)
    moreover have "time st + sum_list (s # steps) = dur_sum ?ns ?i (k1 + k2) + time st2"
      using e1 e2 by (simp add: dur_sum_add i1 n1)
    ultimately show ?thesis
      using pos2 n2 n1 c2 by (intro exI [of _ "k1 + k2"] exI [of _ st2]) simp
  qed
qed


section \<open>Crossing segments in one call\<close>



section \<open>Running the two loops on given values\<close>

lemma skip_zero_time_stop: "target_time st \<noteq> 0 \<Longrightarrow> skip_zero_time st = Some st"
  by (subst skip_zero_time.simps) simp

lemma skip_zero_time_step:
  "target_time st = 0 \<Longrightarrow> skip_zero_time st = skip_zero_time (go_to_next_index st)"
  by (subst skip_zero_time.simps) simp

lemma overshoot_loop_stop:
  "\<not> target_time st \<le> r \<Longrightarrow> overshoot_loop rnd r st = Some (r, st)"
  by (subst overshoot_loop.simps) simp

lemma overshoot_loop_step:
  "target_time st \<le> r \<Longrightarrow>
   overshoot_loop rnd r st =
   overshoot_loop rnd (clamp_residue (fsub rnd r (target_time st))) (go_to_next_index st)"
  by (subst overshoot_loop.simps) simp

section \<open>The closed loop\<close>







section \<open>Double precision rounding on given values\<close>

lemma binary64_eval:
  assumes "x \<noteq> 0" and "2 powr of_int k \<le> \<bar>x\<bar>" and "\<bar>x\<bar> < 2 powr of_int (k + 1)"
  shows "binary64 x = of_int (round_half_even (x / 2 powr of_int (k - 52))) * 2 powr of_int (k - 52)"
proof -
  have "\<lfloor>log 2 \<bar>x\<bar>\<rfloor> = k"
    using assms by (subst floor_log_eq_powr_iff) simp_all
  then show ?thesis using assms(1) by (simp add: binary64_def Let_def)
qed

lemma binary64_eval_large:
  assumes "2 ^ n \<le> \<bar>x\<bar>" and "\<bar>x\<bar> < 2 * 2 ^ n"
  shows "binary64 x = of_int (round_half_even (x * 2 ^ 52 / 2 ^ n)) * 2 ^ n / 2 ^ 52"
proof -
  have "0 < \<bar>x\<bar>" using assms(1) zero_less_power [of "2::real" n] by linarith
  then have x: "x \<noteq> 0" by simp
  have p: "2 powr real_of_int (int n) = (2::real) ^ n"
    by (simp add: powr_realpow)
  have p1: "2 powr real_of_int (int n + 1) = 2 * (2::real) ^ n"
    by (simp add: powr_add powr_realpow)
  have u: "2 powr real_of_int (int n - 52) = (2::real) ^ n / 2 ^ 52"
    by (simp add: powr_diff powr_realpow)
  show ?thesis
    using binary64_eval [of x "int n"] x assms by (simp only: p p1 u) simp
qed

lemma binary64_eval_small:
  assumes "1 / 2 ^ n \<le> \<bar>x\<bar>" and "\<bar>x\<bar> < 2 / 2 ^ n"
  shows "binary64 x = of_int (round_half_even (x * 2 ^ (n + 52))) / 2 ^ (n + 52)"
proof -
  have "0 < 1 / (2::real) ^ n" by simp
  then have "0 < \<bar>x\<bar>" using assms(1) by linarith
  then have x: "x \<noteq> 0" by simp
  have p: "2 powr real_of_int (- int n) = 1 / (2::real) ^ n"
    by (simp add: powr_minus powr_realpow divide_inverse)
  have p1: "2 powr real_of_int (- int n + 1) = 2 / (2::real) ^ n"
    by (simp add: powr_diff powr_realpow divide_inverse)
  have "real_of_int (- int n - 52) = - real (n + 52)" by simp
  then have "2 powr real_of_int (- int n - 52) = inverse (2 powr real (n + 52))"
    by (simp only: powr_minus)
  then have u: "2 powr real_of_int (- int n - 52) = 1 / (2::real) ^ (n + 52)"
    by (simp only: powr_realpow [of 2, simplified] divide_inverse mult_1)
  show ?thesis
    using binary64_eval [of x "- int n"] x assms by (simp only: p p1 u) simp
qed

text \<open>
  The values needed below. \<open>18014398509481984\<close> is \<open>2 ^ 54\<close>; the float
  \<open>0.49999999999999994\<close> is \<open>1 / 2 - 1 / 2 ^ 54 = 9007199254740991 / 2 ^ 54\<close>.
\<close>

lemma binary64_zero: "binary64 0 = 0"
  by (simp add: binary64_def)

lemma binary64_one: "binary64 1 = 1"
  by (subst binary64_eval_large [of 0]) (simp_all add: round_half_even_def)

lemma binary64_minus_one: "binary64 (- 1) = - 1"
  by (subst binary64_eval_large [of 0]) (simp_all add: round_half_even_def)

lemma binary64_half: "binary64 (1 / 2) = 1 / 2"
  by (subst binary64_eval_small [of 1]) (simp_all add: round_half_even_def)

lemma binary64_tie: "binary64 (18014398509481983 / 18014398509481984) = 1"
  by (subst binary64_eval_small [of 1]) (simp_all add: round_half_even_def Let_def)

lemma binary64_residue: "binary64 (- (1 / 18014398509481984)) = - (1 / 18014398509481984)"
  by (subst binary64_eval_small [of 54]) (simp_all add: round_half_even_def Let_def)

lemma binary64_tiny: "binary64 (1 / 18014398509481984) = 1 / 18014398509481984"
  by (subst binary64_eval_small [of 54]) (simp_all add: round_half_even_def Let_def)

lemma binary64_above_one: "binary64 (18014398509481985 / 18014398509481984) = 1"
  by (subst binary64_eval_large [of 0]) (simp_all add: round_half_even_def Let_def)

lemma binary64_big: "binary64 100000000000000000 = 100000000000000000"
  by (subst binary64_eval_large [of 56]) (simp_all add: round_half_even_def Let_def)

lemma binary64_absorb: "binary64 99999999999999999 = 100000000000000000"
  by (subst binary64_eval_large [of 56]) (simp_all add: round_half_even_def Let_def)

lemmas binary64_values =
  binary64_zero binary64_one binary64_minus_one binary64_half binary64_tie binary64_residue
  binary64_tiny binary64_above_one binary64_big binary64_absorb

section \<open>Termination and the state between calls\<close>

lemmas run_defs = IT_get_next_position_def consume_step_def interpolate_def
  go_to_next_index_def get_next_index_def Let_def fadd_def fsub_def fmul_def fdiv_def
  skip_zero_time_stop skip_zero_time_step overshoot_loop_stop overshoot_loop_step clamp_residue_def


text \<open>
  In exact arithmetic every call leaves the interpolator inside a segment of positive
  duration, with an elapsed time from zero up to, and not including, that duration.
\<close>

lemma positioned_after_calls_exact:
  assumes "valid_nodes ns" and "steps \<noteq> []" and "\<forall>s\<in>set steps. 0 \<le> s"
  shows "\<exists>st0 st. IT_init ns = Inr st0 \<and> IT_run exact steps st0 = Some (Inr st)
           \<and> positioned st"
proof -
  obtain st0 where "IT_init ns = Inr st0" "state_ok st0" "time st0 = 0"
    using IT_init_valid [OF assms(1)] by blast
  then show ?thesis
    using run_exact [OF assms(2) assms(3), of st0] by auto
qed

text \<open>
  C4 on the code, in double precision. The clamp of a negative residue sits inside the
  overshoot loop, after \<open>remaining_step -= target_time\<close>, where the loop condition
  has just made the difference non-negative; the residue
  \<open>step - (target_time - time)\<close> computed before the loop is never clamped. With
  unit durations, a step of \<open>0.5\<close> and then one of \<open>0.49999999999999994\<close>:
  the sum \<open>0.5 + 0.49999999999999994\<close> rounds to \<open>1.0\<close>, so the segment is
  left with the residue \<open>- 2 ^ - 54\<close>, and the call returns with a negative
  elapsed time. When the next node has duration zero, the same two steps leave the loop
  in that node and the interpolation divides by zero.
\<close>

theorem negative_residue_not_clamped:
  "IT_init [[0, 0, 1], [1, 0, 1]] =
     Inr \<lparr>nodes = [[0, 0, 1], [1, 0, 1]], index = 0, next_index = 1, time = 0,
          last_pos = (0, 0), curr_pos = (0, 0), target_time = 1\<rparr>
   \<and> IT_run binary64 [1 / 2, 1 / 2 - 1 / 2 ^ 54]
        \<lparr>nodes = [[0, 0, 1], [1, 0, 1]], index = 0, next_index = 1, time = 0,
         last_pos = (0, 0), curr_pos = (0, 0), target_time = 1\<rparr> =
     Some (Inr \<lparr>nodes = [[0, 0, 1], [1, 0, 1]], index = 1, next_index = 0,
          time = - (1 / 2 ^ 54), last_pos = (1 / 2, 0), curr_pos = (1, 0), target_time = 1\<rparr>)
   \<and> - (1 / 2 ^ 54) < (0 :: real)
   \<and> IT_init [[0, 0, 1], [1, 0, 0]] =
     Inr \<lparr>nodes = [[0, 0, 1], [1, 0, 0]], index = 0, next_index = 1, time = 0,
          last_pos = (0, 0), curr_pos = (0, 0), target_time = 1\<rparr>
   \<and> IT_run binary64 [1 / 2, 1 / 2 - 1 / 2 ^ 54]
        \<lparr>nodes = [[0, 0, 1], [1, 0, 0]], index = 0, next_index = 1, time = 0,
         last_pos = (0, 0), curr_pos = (0, 0), target_time = 1\<rparr> =
     Some (Inl ZeroDivisionError)"
  by (simp add: IT_init_def run_defs binary64_values)




section \<open>The elliptic sampler\<close>



lemma ET_next_fields [simp]:
  "et_rotation (snd (ET_get_next_position rnd step s)) = et_rotation s"
  "et_x_length (snd (ET_get_next_position rnd step s)) = et_x_length s"
  "et_y_length (snd (ET_get_next_position rnd step s)) = et_y_length s"
  "et_last_pos (snd (ET_get_next_position rnd step s)) = et_curr_pos s"
  "et_curr_pos (snd (ET_get_next_position rnd step s)) = fst (ET_get_next_position rnd step s)"
  by (simp_all add: ET_get_next_position_def Let_def)









lemma ET_run_fields [simp]:
  "et_rotation (ET_run rnd steps s) = et_rotation s"
  "et_x_length (ET_run rnd steps s) = et_x_length s"
  "et_y_length (ET_run rnd steps s) = et_y_length s"
  by (induction steps arbitrary: s) simp_all






section \<open>The composed deltas\<close>

lemma loop_body_None:
  "IT_get_delta rnd (fmul rnd step PS) (parent ms) = None \<Longrightarrow> loop_body rnd step PS ES ms = None"
  by (simp add: loop_body_def)

lemma loop_body_Inl:
  "IT_get_delta rnd (fmul rnd step PS) (parent ms) = Some (Inl e) \<Longrightarrow>
   loop_body rnd step PS ES ms = Some (Inl e)"
  by (simp add: loop_body_def)

lemma loop_body_Inr:
  "IT_get_delta rnd (fmul rnd step PS) (parent ms) = Some (Inr (d, p1)) \<Longrightarrow>
   loop_body rnd step PS ES ms =
     Some (Inr \<lparr>parent = p1,
        et_1 = snd (ET_get_delta rnd (fmul rnd step ES) (et_1 ms)),
        et_2 = snd (ET_get_delta rnd (fmul rnd step ES) (et_2 ms)),
        path_1 = path_1 ms @
          [LineRel (fadd rnd (fst d) (fst (fst (ET_get_delta rnd (fmul rnd step ES) (et_1 ms)))))
                   (fadd rnd (snd d) (snd (fst (ET_get_delta rnd (fmul rnd step ES) (et_1 ms)))))],
        path_2 = path_2 ms @
          [LineRel (fadd rnd (fst d) (fst (fst (ET_get_delta rnd (fmul rnd step ES) (et_2 ms)))))
                   (fadd rnd (snd d) (snd (fst (ET_get_delta rnd (fmul rnd step ES) (et_2 ms)))))]\<rparr>)"
  by (simp add: loop_body_def case_prod_beta)

text \<open>
  C9. After \<open>n\<close> iterations, whatever the rounding, each path has received one
  relative line per iteration, in order: the \<open>i\<close>-th is the \<open>i\<close>-th delta of the
  parent, stepped by \<open>step * PARENT_SCALE\<close> on its own, plus componentwise the
  \<open>i\<close>-th delta of that path's ellipse, stepped by \<open>step * ELLIPSE_SCALE\<close> on its
  own. The loop fails to return, or raises, exactly when the parent's calls do.
\<close>

theorem main_loop_emits_sums:
  "(case main_loop rnd step PS ES n ms of
      None \<Rightarrow> IT_deltas rnd (fmul rnd step PS) n (parent ms) = None
    | Some (Inl e) \<Rightarrow> IT_deltas rnd (fmul rnd step PS) n (parent ms) = Some (Inl e)
    | Some (Inr ms') \<Rightarrow>
        (\<exists>pds. IT_deltas rnd (fmul rnd step PS) n (parent ms) = Some (Inr pds)
           \<and> length pds = n
           \<and> path_1 ms' = path_1 ms @
                map2 (\<lambda>pd cd. LineRel (fadd rnd (fst pd) (fst cd)) (fadd rnd (snd pd) (snd cd)))
                  pds (ET_deltas rnd (fmul rnd step ES) n (et_1 ms))
           \<and> path_2 ms' = path_2 ms @
                map2 (\<lambda>pd cd. LineRel (fadd rnd (fst pd) (fst cd)) (fadd rnd (snd pd) (snd cd)))
                  pds (ET_deltas rnd (fmul rnd step ES) n (et_2 ms))))"
proof (induction n arbitrary: ms)
  case 0
  show ?case by simp
next
  case (Suc n)
  show ?case
  proof (cases "IT_get_delta rnd (fmul rnd step PS) (parent ms)")
    case None
    then show ?thesis by (simp add: loop_body_None)
  next
    case (Some res)
    show ?thesis
    proof (cases res)
      case (Inl e)
      then show ?thesis using Some by (simp add: loop_body_Inl)
    next
      case (Inr dp)
      obtain d p1 where dp: "dp = (d, p1)" by (cases dp)
      let ?ms1 = "\<lparr>parent = p1,
        et_1 = snd (ET_get_delta rnd (fmul rnd step ES) (et_1 ms)),
        et_2 = snd (ET_get_delta rnd (fmul rnd step ES) (et_2 ms)),
        path_1 = path_1 ms @
          [LineRel (fadd rnd (fst d) (fst (fst (ET_get_delta rnd (fmul rnd step ES) (et_1 ms)))))
                   (fadd rnd (snd d) (snd (fst (ET_get_delta rnd (fmul rnd step ES) (et_1 ms)))))],
        path_2 = path_2 ms @
          [LineRel (fadd rnd (fst d) (fst (fst (ET_get_delta rnd (fmul rnd step ES) (et_2 ms)))))
                   (fadd rnd (snd d) (snd (fst (ET_get_delta rnd (fmul rnd step ES) (et_2 ms)))))]\<rparr>"
      have gd: "IT_get_delta rnd (fmul rnd step PS) (parent ms) = Some (Inr (d, p1))"
        using Some Inr dp by simp
      have step: "main_loop rnd step PS ES (Suc n) ms = main_loop rnd step PS ES n ?ms1"
        by (simp add: loop_body_Inr [OF gd])
      show ?thesis
        unfolding step using Suc.IH [of ?ms1]
        by (auto simp: gd split: option.splits sum.splits)
    qed
  qed
qed

end
